theory Spec2Isabelle
  imports Complex_Main
begin

section \<open>SiteMonitor: adaptive delay control (src/site_monitor.py)\<close>

text \<open>
  The class \<^verbatim>\<open>SiteMonitor\<close> paces requests: it records the latency of each request per
  category, learns a baseline from the first \<^verbatim>\<open>burn_in\<close> samples, and afterwards moves one
  shared delay up and down in steps. The object is modelled as a record that every method
  takes and returns; an exception is a value \<open>Inl e\<close> returned together with the state as
  the exception leaves it.

  Numbers: Python floats and ints are idealised as reals. The results of numpy's
  \<^verbatim>\<open>mean\<close> and \<^verbatim>\<open>std\<close> are \<open>npfloat\<close>, which adds the value \<open>NaN\<close> that numpy
  returns on an empty sequence.
\<close>

subsection \<open>Values\<close>

datatype npfloat = NaN | Fin real

datatype error =
    InvalidCategory
  | AssertionError
  | TypeError
  | UnboundLocalError
  | ValueError
  | KeyError

text \<open>The argument \<^verbatim>\<open>response\<close> of \<^verbatim>\<open>track_request\<close>, by the type tests of lines 52-57:
  a \<^verbatim>\<open>requests\<close> response (carrying \<^verbatim>\<open>elapsed.total_seconds()\<close>), a timedelta (carrying
  \<^verbatim>\<open>total_seconds()\<close>), a float or int, or a value of any other type.\<close>

datatype response =
    Response real
  | Timedelta real
  | Number real
  | Unsupported

text \<open>What a call hands back: with \<^verbatim>\<open>handle_timer\<close> it sleeps for the delay and returns
  nothing, otherwise it returns the delay (which can be \<^verbatim>\<open>None\<close>).\<close>

datatype outcome = Slept real | Returned "real option"

fun issued :: "outcome \<Rightarrow> real option" where
  "issued (Slept d) = Some d"
| "issued (Returned d) = d"

subsection \<open>numpy and Python primitives\<close>

definition mean :: "real list \<Rightarrow> npfloat" where
  "mean xs = (if xs = [] then NaN else Fin (sum_list xs / real (length xs)))"

definition std :: "real list \<Rightarrow> npfloat" where
  "std xs =
     (if xs = [] then NaN
      else let m = sum_list xs / real (length xs)
           in Fin (sqrt (sum_list (map (\<lambda>x. \<bar>x - m\<bar>\<^sup>2) xs) / real (length xs))))"

fun np_add :: "npfloat \<Rightarrow> npfloat \<Rightarrow> npfloat" where
  "np_add (Fin a) (Fin b) = Fin (a + b)"
| "np_add _ _ = NaN"

fun np_scale :: "real \<Rightarrow> npfloat \<Rightarrow> npfloat" where
  "np_scale k (Fin a) = Fin (k * a)"
| "np_scale k NaN = NaN"

fun np_gt :: "npfloat \<Rightarrow> npfloat \<Rightarrow> bool" where
  "np_gt (Fin a) (Fin b) = (a > b)"
| "np_gt _ _ = False"

text \<open>The slice \<^verbatim>\<open>xs[-n:]\<close>: the last \<open>n\<close> elements for positive \<open>n\<close> (all of them when
  there are fewer), the whole list for \<open>n = 0\<close>, and \<^verbatim>\<open>xs[k:]\<close> for \<open>n = - k < 0\<close>.\<close>

definition last_slice :: "int \<Rightarrow> 'a list \<Rightarrow> 'a list" where
  "last_slice n xs =
     (if 0 < n then drop (length xs - nat n) xs else drop (nat (- n)) xs)"

text \<open>\<^verbatim>\<open>random.uniform(low, high)\<close> is \<open>low + (high - low) * u\<close> for a draw \<open>u\<close> from
  \<open>[0, 1)\<close>; the draw is an argument of the model.\<close>

definition uniform :: "real \<Rightarrow> real \<Rightarrow> real \<Rightarrow> real" where
  "uniform u low high = low + (high - low) * u"

subsection \<open>State\<close>

text \<open>The dictionaries \<^verbatim>\<open>responses\<close>, \<^verbatim>\<open>baseline_avg\<close>, \<^verbatim>\<open>baseline_std\<close>,
  \<^verbatim>\<open>baseline_max\<close>, \<^verbatim>\<open>rolling_mean\<close> and \<^verbatim>\<open>burnin_over\<close> are built over the same keys
  (lines 34-46) and no key is added or removed afterwards, so they are kept as one map from
  a category to the record of its six entries.\<close>

record cat_state =
  responses :: "real list"
  baseline_avg :: "npfloat option"
  baseline_std :: "npfloat option"
  baseline_max :: "npfloat option"
  rolling_mean :: "npfloat list"
  burnin_over :: bool

text \<open>The dictionary \<^verbatim>\<open>delays\<close> with its five fixed keys
  \<^verbatim>\<open>'burnin'\<close>, \<^verbatim>\<open>'min'\<close>, \<^verbatim>\<open>'max'\<close>, \<^verbatim>\<open>'interval'\<close>, \<^verbatim>\<open>'current'\<close>.\<close>

record delay_conf =
  burnin_delay :: real
  min_delay :: real
  max_delay :: real
  interval :: real
  current :: "real option"

record site_monitor =
  cats :: "string \<rightharpoonup> cat_state"
  delay_tracker :: "real option \<Rightarrow> nat"
  delays :: delay_conf
  burn_in :: int
  choke_point :: real
  slow_down_thresh :: int
  speed_up_thresh :: int
  num_violations :: int
  num_successes :: int
  rand :: "real option"
  start_delay :: real
  handle_timer :: bool
  rolling_mean_length :: int

definition default_category :: string where
  "default_category = ''main''"

subsection \<open>Construction (lines 9-48)\<close>

datatype dictval = ListVal "real list" | OtherVal

text \<open>The argument \<^verbatim>\<open>categories\<close>: \<^verbatim>\<open>None\<close>, a string, a list of names, a dict (its items,
  keys distinct) or anything else. A dict is kept as the object's own \<^verbatim>\<open>responses\<close> (line 23);
  the model takes its values to be list objects of their own, shared neither with each other
  nor with a caller who appends to them.\<close>

datatype categories_arg =
    CatNone
  | CatStr string
  | CatList "string list"
  | CatDict "(string \<times> dictval) list"
  | CatOther

datatype delays_arg = DelaysNone | DelaysDict "string \<rightharpoonup> real" | DelaysOther

fun is_list :: "dictval \<Rightarrow> bool" where
  "is_list (ListVal _) = True"
| "is_list OtherVal = False"

fun list_of :: "dictval \<Rightarrow> real list" where
  "list_of (ListVal xs) = xs"
| "list_of OtherVal = []"

definition new_cat :: "real list \<Rightarrow> cat_state" where
  "new_cat xs =
     \<lparr>responses = xs, baseline_avg = None, baseline_std = None, baseline_max = None,
      rolling_mean = [], burnin_over = False\<rparr>"

definition init_responses :: "categories_arg \<Rightarrow> error + (string \<times> real list) list" where
  "init_responses categories =
     (case categories of
        CatNone \<Rightarrow> Inr [(default_category, [])]
      | CatStr c \<Rightarrow> Inr [(c, [])]
      | CatList ks \<Rightarrow> Inr (map (\<lambda>k. (k, [])) ks)
      | CatDict kvs \<Rightarrow>
          if list_all is_list (map snd kvs)
          then Inr (map (\<lambda>(k, v). (k, list_of v)) kvs)
          else Inl AssertionError
      | CatOther \<Rightarrow> Inl InvalidCategory)"

definition override :: "(string \<rightharpoonup> real) \<Rightarrow> string \<Rightarrow> real \<Rightarrow> real" where
  "override m k d = (case m k of None \<Rightarrow> d | Some v \<Rightarrow> v)"

definition init_delays :: "delays_arg \<Rightarrow> error + delay_conf" where
  "init_delays arg =
     (case arg of
        DelaysNone \<Rightarrow>
          Inr \<lparr>burnin_delay = 10, min_delay = 0, max_delay = 30, interval = 5, current = None\<rparr>
      | DelaysDict m \<Rightarrow>
          Inr \<lparr>burnin_delay = override m ''burnin'' 10, min_delay = override m ''min'' 0,
               max_delay = override m ''max'' 30, interval = override m ''interval'' 5,
               current = m ''current''\<rparr>
      | DelaysOther \<Rightarrow> Inl AssertionError)"

definition init ::
  "categories_arg \<Rightarrow> int \<Rightarrow> real \<Rightarrow> int \<Rightarrow> int \<Rightarrow> real option \<Rightarrow> real \<Rightarrow> delays_arg \<Rightarrow> bool \<Rightarrow> int
     \<Rightarrow> error + site_monitor" where
  "init categories burn_in0 choke_point0 slow_down_thresh0 speed_up_thresh0 rand0 start_delay0
        delays0 handle_timer0 rolling_mean_length0 =
     (case init_responses categories of
        Inl e \<Rightarrow> Inl e
      | Inr rs \<Rightarrow>
          (case init_delays delays0 of
             Inl e \<Rightarrow> Inl e
           | Inr ds \<Rightarrow>
               Inr \<lparr>cats = map_of (map (\<lambda>(k, v). (k, new_cat v)) rs),
                    delay_tracker = (\<lambda>_. 0),
                    delays = ds,
                    burn_in = burn_in0,
                    choke_point = choke_point0,
                    slow_down_thresh = slow_down_thresh0,
                    speed_up_thresh = speed_up_thresh0,
                    num_violations = 0,
                    num_successes = 0,
                    rand = rand0,
                    start_delay = min (max start_delay0 (min_delay ds)) (max_delay ds),
                    handle_timer = handle_timer0,
                    rolling_mean_length = rolling_mean_length0\<rparr>))"

subsection \<open>The three phases (lines 81-130)\<close>

definition burnin_process :: "site_monitor \<Rightarrow> string \<Rightarrow> real \<Rightarrow> (error + real option) \<times> site_monitor" where
  "burnin_process s category elapsed =
     (case cats s category of
        None \<Rightarrow> (Inl KeyError, s)
      | Some cs \<Rightarrow>
          (Inr (Some (burnin_delay (delays s))),
           s\<lparr>cats := (cats s)(category \<mapsto> cs\<lparr>responses := responses cs @ [elapsed]\<rparr>)\<rparr>))"

definition halt_event :: "site_monitor \<Rightarrow> string \<Rightarrow> site_monitor" where
  "halt_event s category = s\<lparr>delays := (delays s)\<lparr>current := Some (max_delay (delays s))\<rparr>\<rparr>"

definition monitoring_process :: "site_monitor \<Rightarrow> string \<Rightarrow> real \<Rightarrow> (error + real option) \<times> site_monitor" where
  "monitoring_process s category elapsed =
     (case cats s category of
        None \<Rightarrow> (Inl KeyError, s)
      | Some cs \<Rightarrow>
          let rs = responses cs @ [elapsed];
              rm = mean (last_slice (rolling_mean_length s) rs);
              s1 = s\<lparr>cats := (cats s)(category \<mapsto>
                       cs\<lparr>responses := rs, rolling_mean := rolling_mean cs @ [rm]\<rparr>)\<rparr>
          in (case baseline_max cs of
               None \<Rightarrow> (Inl TypeError, s1)
             | Some bmax \<Rightarrow>
                 if np_gt rm bmax then
                   let s2 = s1\<lparr>num_violations := num_violations s1 + 1\<rparr>
                   in if slow_down_thresh s2 \<le> num_violations s2 then
                        (case current (delays s2) of
                           None \<Rightarrow> (Inl TypeError, s2)
                         | Some d \<Rightarrow>
                             let s3 = s2\<lparr>delays := (delays s2)\<lparr>current := Some (d + interval (delays s2))\<rparr>\<rparr>;
                                 s4 = (if max_delay (delays s3) < d + interval (delays s2)
                                       then halt_event s3 category else s3);
                                 s5 = s4\<lparr>num_violations := 0, num_successes := 0\<rparr>
                             in (Inr (current (delays s5)), s5))
                      else (Inr (current (delays s2)), s2)
                 else
                   (case current (delays s1) of
                      None \<Rightarrow> (Inl TypeError, s1)
                    | Some d \<Rightarrow>
                        if min_delay (delays s1) < d then
                          let s2 = s1\<lparr>num_successes := num_successes s1 + 1\<rparr>
                          in if speed_up_thresh s2 \<le> num_successes s2 then
                               let s3 = s2\<lparr>delays := (delays s2)\<lparr>current :=
                                          Some (max (d - interval (delays s2)) (min_delay (delays s2)))\<rparr>\<rparr>;
                                   s4 = s3\<lparr>num_successes := 0, num_violations := 0\<rparr>
                               in (Inr (current (delays s4)), s4)
                             else (Inr (current (delays s2)), s2)
                        else (Inr (current (delays s1)), s1))))"

definition end_burnin :: "site_monitor \<Rightarrow> string \<Rightarrow> real \<Rightarrow> (error + real option) \<times> site_monitor" where
  "end_burnin s category elapsed =
     (case cats s category of
        None \<Rightarrow> (Inl KeyError, s)
      | Some cs \<Rightarrow>
          let m = mean (responses cs);
              sd = std (responses cs);
              cs1 = cs\<lparr>baseline_avg := Some m, baseline_std := Some sd,
                       baseline_max := Some (np_add m (np_scale (choke_point s) sd)),
                       burnin_over := True\<rparr>;
              s1 = s\<lparr>cats := (cats s)(category \<mapsto> cs1),
                     delays := (delays s)\<lparr>current := Some (start_delay s)\<rparr>\<rparr>
          in monitoring_process s1 category elapsed)"

subsection \<open>The entry point (lines 50-79)\<close>

fun elapsed_of :: "response \<Rightarrow> real option" where
  "elapsed_of (Response t) = Some t"
| "elapsed_of (Timedelta t) = Some t"
| "elapsed_of (Number x) = Some x"
| "elapsed_of Unsupported = None"

text \<open>Lines 65-70: the phase is chosen by the length of the category's history.\<close>

definition dispatch :: "site_monitor \<Rightarrow> string \<Rightarrow> real \<Rightarrow> (error + real option) \<times> site_monitor" where
  "dispatch s category elapsed =
     (case cats s category of
        None \<Rightarrow> (Inl KeyError, s)
      | Some cs \<Rightarrow>
          if int (length (responses cs)) < burn_in s then burnin_process s category elapsed
          else if int (length (responses cs)) = burn_in s \<and> burnin_over cs = False
            then end_burnin s category elapsed
          else if burn_in s \<le> int (length (responses cs))
            then monitoring_process s category elapsed
          else (Inl UnboundLocalError, s))"

text \<open>Lines 72-79: count the delay, perturb it when \<^verbatim>\<open>rand\<close> is set and not zero, then
  sleep or return. \<^verbatim>\<open>time.sleep\<close> rejects \<^verbatim>\<open>None\<close> and negative lengths.\<close>

definition jitter :: "real \<Rightarrow> site_monitor \<Rightarrow> real option \<Rightarrow> error + real option" where
  "jitter u s delay =
     (case rand s of
        None \<Rightarrow> Inr delay
      | Some r \<Rightarrow>
          if r = 0 then Inr delay
          else (case delay of
                  None \<Rightarrow> Inl TypeError
                | Some d \<Rightarrow> Inr (Some (uniform u (max (d - r) 0) (d + r)))))"

definition finish :: "real \<Rightarrow> site_monitor \<Rightarrow> real option \<Rightarrow> (error + outcome) \<times> site_monitor" where
  "finish u s delay =
     (let s1 = s\<lparr>delay_tracker := (delay_tracker s)(delay := delay_tracker s delay + 1)\<rparr>
      in case jitter u s1 delay of
           Inl e \<Rightarrow> (Inl e, s1)
         | Inr delay' \<Rightarrow>
             if handle_timer s1 then
               (case delay' of
                  None \<Rightarrow> (Inl TypeError, s1)
                | Some d \<Rightarrow> if d < 0 then (Inl ValueError, s1) else (Inr (Slept d), s1))
             else (Inr (Returned delay'), s1))"

definition track_request ::
  "real \<Rightarrow> site_monitor \<Rightarrow> response \<Rightarrow> string option \<Rightarrow> (error + outcome) \<times> site_monitor" where
  "track_request u s response category =
     (let category = (case category of None \<Rightarrow> default_category | Some c \<Rightarrow> c)
      in if category \<notin> dom (cats s) then (Inl InvalidCategory, s)
         else (case elapsed_of response of
                 None \<Rightarrow> (Inl UnboundLocalError, s)
               | Some elapsed \<Rightarrow>
                   (case dispatch s category elapsed of
                      (Inl e, s1) \<Rightarrow> (Inl e, s1)
                    | (Inr delay, s1) \<Rightarrow> finish u s1 delay)))"

text \<open>A caller's session: one call after the other on the same object, each with its
  random draw; a call that raises leaves the object as it was at the raise, and the caller
  goes on.\<close>

type_synonym call = "real \<times> response \<times> string option"

fun run :: "site_monitor \<Rightarrow> call list \<Rightarrow> site_monitor" where
  "run s [] = s"
| "run s ((u, r, c) # calls) = run (snd (track_request u s r c)) calls"

subsection \<open>Concrete configurations\<close>

text \<open>The configuration of the worked scenario: one category \<^verbatim>\<open>'main'\<close>, a burn-in of five
  samples, choke point 2, both thresholds 2, step 5, delays between 0 and 20, start delay 0,
  no jitter, delays returned to the caller.\<close>

definition scenario0 :: site_monitor where
  "scenario0 = \<lparr>cats = [''main'' \<mapsto> new_cat []], delay_tracker = (\<lambda>_. 0),
     delays = \<lparr>burnin_delay = 10, min_delay = 0, max_delay = 20, interval = 5, current = None\<rparr>,
     burn_in = 5, choke_point = 2, slow_down_thresh = 2, speed_up_thresh = 2,
     num_violations = 0, num_successes = 0, rand = None, start_delay = 0,
     handle_timer = False, rolling_mean_length = 25\<rparr>"

text \<open>A list of latencies reported to one category, as calls (the draw is 0).\<close>

definition reports :: "string option \<Rightarrow> real list \<Rightarrow> call list" where
  "reports category xs = map (\<lambda>x. (0, Number x, category)) xs"

text \<open>The scenario after the reports 1, 1, 1, 1, 1, 5, 5, 5, with an empty histogram and
  with jitter of amplitude 2 switched on.\<close>

definition jittered :: site_monitor where
  "jittered = \<lparr>cats = [''main'' \<mapsto>
       \<lparr>responses = [1,1,1,1,1,5,5,5], baseline_avg = Some (Fin 1), baseline_std = Some (Fin 0),
        baseline_max = Some (Fin 1), rolling_mean = [Fin (5/3), Fin (15/7), Fin (5/2)],
        burnin_over = True\<rparr>],
     delay_tracker = (\<lambda>_. 0),
     delays = \<lparr>burnin_delay = 10, min_delay = 0, max_delay = 20, interval = 5, current = Some 5\<rparr>,
     burn_in = 5, choke_point = 2, slow_down_thresh = 2, speed_up_thresh = 2,
     num_violations = 1, num_successes = 0, rand = Some 2, start_delay = 0,
     handle_timer = False, rolling_mean_length = 25\<rparr>"

text \<open>The same configuration with two categories, \<^verbatim>\<open>'a'\<close> and \<^verbatim>\<open>'b'\<close>.\<close>

definition two_cats :: site_monitor where
  "two_cats = scenario0\<lparr>cats := [''a'' \<mapsto> new_cat [], ''b'' \<mapsto> new_cat []]\<rparr>"

text \<open>Two categories after \<^verbatim>\<open>'a'\<close> has received 1, 1, 1, 1, 1, 5, 5 (burn-in over, delay
  raised to 5) and \<^verbatim>\<open>'b'\<close> has received 1, 1, 1, 1, 1: the next report to \<^verbatim>\<open>'b'\<close> ends its
  burn-in. The histogram is left empty.\<close>

definition at_boundary :: site_monitor where
  "at_boundary = \<lparr>cats = [''a'' \<mapsto>
       \<lparr>responses = [1,1,1,1,1,5,5], baseline_avg = Some (Fin 1), baseline_std = Some (Fin 0),
        baseline_max = Some (Fin 1), rolling_mean = [Fin (5/3), Fin (15/7)], burnin_over = True\<rparr>,
       ''b'' \<mapsto> new_cat [1,1,1,1,1]],
     delay_tracker = (\<lambda>_. 0),
     delays = \<lparr>burnin_delay = 10, min_delay = 0, max_delay = 20, interval = 5, current = Some 5\<rparr>,
     burn_in = 5, choke_point = 2, slow_down_thresh = 2, speed_up_thresh = 2,
     num_violations = 0, num_successes = 0, rand = None, start_delay = 0,
     handle_timer = False, rolling_mean_length = 25\<rparr>"

text \<open>The scenario with a rolling window of one sample, after the reports
  1, 1, 1, 1, 1, 5, 5, 5, 5: the delay stands at 10 and both counters at 0.\<close>

definition elevated :: site_monitor where
  "elevated = \<lparr>cats = [''main'' \<mapsto>
       \<lparr>responses = [1,1,1,1,1,5,5,5,5], baseline_avg = Some (Fin 1), baseline_std = Some (Fin 0),
        baseline_max = Some (Fin 1), rolling_mean = [Fin 5, Fin 5, Fin 5, Fin 5],
        burnin_over = True\<rparr>],
     delay_tracker = (\<lambda>_. 0),
     delays = \<lparr>burnin_delay = 10, min_delay = 0, max_delay = 20, interval = 5, current = Some 10\<rparr>,
     burn_in = 5, choke_point = 2, slow_down_thresh = 2, speed_up_thresh = 2,
     num_violations = 0, num_successes = 0, rand = None, start_delay = 0,
     handle_timer = False, rolling_mean_length = 1\<rparr>"


text \<open>A session from the constructor's result: nothing when construction raised.\<close>

definition session :: "error + site_monitor \<Rightarrow> call list \<Rightarrow> site_monitor option" where
  "session m calls = (case m of Inl e \<Rightarrow> None | Inr s \<Rightarrow> Some (run s calls))"

text \<open>Reports of one latency \<open>v\<close> to one category, one for each draw of \<open>us\<close>.\<close>

definition constant_reports :: "string \<Rightarrow> real \<Rightarrow> real list \<Rightarrow> call list" where
  "constant_reports c v us = map (\<lambda>u. (u, Number v, Some c)) us"

subsection \<open>Predicates on states\<close>

text \<open>The delay bounds are ordered, the step is not negative, the start delay lies between
  the bounds, and so does the current delay once it is set.\<close>

definition range_inv :: "site_monitor \<Rightarrow> bool" where
  "range_inv s \<longleftrightarrow>
     min_delay (delays s) \<le> max_delay (delays s) \<and> 0 \<le> interval (delays s)
     \<and> min_delay (delays s) \<le> start_delay s \<and> start_delay s \<le> max_delay (delays s)
     \<and> (\<forall>d. current (delays s) = Some d \<longrightarrow> min_delay (delays s) \<le> d \<and> d \<le> max_delay (delays s))"

text \<open>While the current delay is \<^verbatim>\<open>None\<close> no category has finished its burn-in.\<close>

definition started_inv :: "site_monitor \<Rightarrow> bool" where
  "started_inv s \<longleftrightarrow>
     (current (delays s) = None \<longrightarrow> (\<forall>c cs. cats s c = Some cs \<longrightarrow> burnin_over cs = False))"

definition bounds :: "site_monitor \<Rightarrow> real \<times> real \<times> real \<times> real" where
  "bounds s = (min_delay (delays s), max_delay (delays s), interval (delays s), start_delay s)"

text \<open>What the monitoring phase does to the entry of the category (lines 102-104).\<close>

definition observed :: "site_monitor \<Rightarrow> cat_state \<Rightarrow> real \<Rightarrow> cat_state" where
  "observed s cs e =
     cs\<lparr>responses := responses cs @ [e],
        rolling_mean := rolling_mean cs @ [mean (last_slice (rolling_mean_length s) (responses cs @ [e]))]\<rparr>"





text \<open>Everything of the state that the controller reads or writes (the histogram and the
  options of the last lines are left out).\<close>

definition view ::
  "site_monitor \<Rightarrow> (string \<rightharpoonup> cat_state) \<times> delay_conf \<times> int \<times> int \<times> int \<times> int \<times> int \<times> int" where
  "view s = (cats s, delays s, num_violations s, num_successes s, burn_in s,
             rolling_mean_length s, slow_down_thresh s, speed_up_thresh s)"

text \<open>Category \<open>c\<close> has finished its burn-in in \<open>s\<close>, with ceiling \<open>bm\<close>.\<close>

definition past_burnin :: "site_monitor \<Rightarrow> string \<Rightarrow> cat_state \<Rightarrow> npfloat \<Rightarrow> bool" where
  "past_burnin s c cs bm \<longleftrightarrow>
     cats s c = Some cs \<and> burnin_over cs \<and> burn_in s \<le> int (length (responses cs))
     \<and> baseline_max cs = Some bm"

section \<open>Properties\<close>

subsection \<open>Unfolding and frame lemmas\<close>

lemmas step_defs = track_request_def dispatch_def burnin_process_def end_burnin_def
  monitoring_process_def finish_def jitter_def halt_event_def Let_def

lemmas eval_defs = step_defs default_category_def new_cat_def mean_def std_def last_slice_def
  reports_def scenario0_def uniform_def

lemmas init_defs = init_def init_responses_def init_delays_def override_def session_def

lemma track_request_snd:
  "snd (track_request u s r category) =
     (let c = (case category of None \<Rightarrow> default_category | Some c \<Rightarrow> c)
      in if c \<notin> dom (cats s) then s
         else (case elapsed_of r of
                 None \<Rightarrow> s
               | Some e \<Rightarrow>
                   (case dispatch s c e of
                      (Inl err, s') \<Rightarrow> s'
                    | (Inr d, s') \<Rightarrow> s'\<lparr>delay_tracker := (delay_tracker s')(d := delay_tracker s' d + 1)\<rparr>)))"
  by (auto simp: track_request_def finish_def Let_def split: option.splits sum.splits prod.splits)

lemma monitoring_process_returns_current:
  "monitoring_process s c e = (Inr d, s') \<Longrightarrow> d = current (delays s')"
  by (auto simp: monitoring_process_def Let_def split: option.splits if_splits)

lemma end_burnin_returns_current:
  "end_burnin s c e = (Inr d, s') \<Longrightarrow> d = current (delays s')"
  by (auto simp: end_burnin_def Let_def monitoring_process_returns_current split: option.splits)

lemma monitoring_process_cats:
  assumes "cats s c = Some cs" and "monitoring_process s c e = (r, s')"
  shows "cats s' = (cats s)(c \<mapsto> observed s cs e)"
  using assms
  by (auto simp: observed_def monitoring_process_def halt_event_def Let_def
           split: option.splits if_splits)

lemma monitoring_process_current:
  assumes "current (delays s) = Some d" and "monitoring_process s c e = (r, s')"
  shows "current (delays s') \<noteq> None"
  using assms
  by (auto simp: monitoring_process_def halt_event_def Let_def split: option.splits if_splits)


lemma dispatch_cases:
  assumes "cats s c = Some cs"
  shows "dispatch s c e = burnin_process s c e \<or> dispatch s c e = end_burnin s c e
       \<or> dispatch s c e = monitoring_process s c e"
  using assms by (simp add: dispatch_def)


lemma init_fields:
  assumes "init categories b cp sl sp rd sd dl ht rml = Inr s0"
  shows "start_delay s0 = min (max sd (min_delay (delays s0))) (max_delay (delays s0))"
    and "burn_in s0 = b" and "choke_point s0 = cp"
    and "num_violations s0 = 0" and "num_successes s0 = 0"
  using assms
  by (auto simp: init_def split: sum.splits)

lemma init_cats:
  assumes "init categories b cp sl sp rd sd dl ht rml = Inr s0" and "cats s0 c = Some cs"
  shows "burnin_over cs = False \<and> baseline_avg cs = None \<and> baseline_std cs = None
       \<and> baseline_max cs = None \<and> rolling_mean cs = []"
proof -
  obtain rs where "cats s0 = map_of (map (\<lambda>(k, v). (k, new_cat v)) rs)"
    using assms(1) by (auto simp: init_def split: sum.splits)
  then have "(c, cs) \<in> set (map (\<lambda>(k, v). (k, new_cat v)) rs)"
    using assms(2) by (auto dest: map_of_SomeD)
  then obtain v where "cs = new_cat v" by auto
  then show ?thesis by (simp add: new_cat_def)
qed

text \<open>The concrete states of the section above are states the model reaches (the histogram
  is emptied, and for \<open>jittered\<close> the jitter switched on).\<close>

lemma jittered_reached:
  "(run scenario0 (reports None [1,1,1,1,1,5,5,5]))\<lparr>delay_tracker := (\<lambda>_. 0), rand := Some 2\<rparr> = jittered"
  by (simp add: eval_defs jittered_def)

lemma elevated_reached:
  "(run (scenario0\<lparr>rolling_mean_length := 1\<rparr>) (reports None [1,1,1,1,1,5,5,5,5]))
      \<lparr>delay_tracker := (\<lambda>_. 0)\<rparr> = elevated"
  by (simp add: eval_defs elevated_def)

lemma at_boundary_reached:
  "(run two_cats (reports (Some ''a'') [1,1,1,1,1,5,5] @ reports (Some ''b'') [1,1,1,1,1]))
      \<lparr>delay_tracker := (\<lambda>_. 0)\<rparr> = at_boundary"
  by (simp add: eval_defs two_cats_def at_boundary_def fun_eq_iff)

subsection \<open>Unknown categories and unsupported responses\<close>

text \<open>C5. For every state, every response and every draw, a call of \<^verbatim>\<open>track_request\<close> whose
  category (the default \<^verbatim>\<open>'main'\<close> when none is given) was not declared at construction
  raises \<^verbatim>\<open>InvalidCategory\<close> and returns the state as it was: histories, baselines, rolling
  means, counters, current delay and histogram are all unchanged.\<close>

theorem unknown_category_unchanged:
  assumes "(case category of None \<Rightarrow> default_category | Some c \<Rightarrow> c) \<notin> dom (cats s)"
  shows "track_request u s response category = (Inl InvalidCategory, s)"
  using assms by (simp add: track_request_def)

theorem unknown_category_unchanged_witness:
  "(case Some ''other'' of None \<Rightarrow> default_category | Some c \<Rightarrow> c) \<notin> dom (cats scenario0)
   \<and> track_request 0 scenario0 (Number 1) (Some ''other'') = (Inl InvalidCategory, scenario0)"
  using unknown_category_unchanged [of "Some ''other''" scenario0 0 "Number 1"]
  by (simp add: scenario0_def)

text \<open>C10, as stated, fails: with a response of an unsupported type and an undeclared
  category the category test of lines 61-63 comes first and the call raises
  \<^verbatim>\<open>InvalidCategory\<close>, not the unbound-variable error.\<close>

theorem unsupported_response_counterexample:
  "track_request 0 scenario0 Unsupported (Some ''other'') = (Inl InvalidCategory, scenario0)
   \<and> fst (track_request 0 scenario0 Unsupported (Some ''other'')) \<noteq> Inl UnboundLocalError"
  by (simp add: track_request_def scenario0_def)

text \<open>C10, amended. When the response is of none of the accepted types and the category is
  a declared one, \<^verbatim>\<open>elapsed\<close> is never assigned and the call raises the unbound-variable
  error at the first use of \<^verbatim>\<open>elapsed\<close>, before any change of the state.\<close>

theorem unsupported_response_unbound:
  assumes "(case category of None \<Rightarrow> default_category | Some c \<Rightarrow> c) \<in> dom (cats s)"
  shows "track_request u s Unsupported category = (Inl UnboundLocalError, s)"
  using assms by (simp add: track_request_def)

theorem unsupported_response_unbound_witness:
  "(case None of None \<Rightarrow> default_category | Some c \<Rightarrow> c) \<in> dom (cats scenario0)
   \<and> track_request 0 scenario0 Unsupported None = (Inl UnboundLocalError, scenario0)"
  using unsupported_response_unbound [of None scenario0 0]
  by (simp add: scenario0_def default_category_def)

subsection \<open>The worked scenario\<close>

text \<open>C6. With \<^verbatim>\<open>burn_in=5\<close>, \<^verbatim>\<open>choke_point=2\<close>, both thresholds 2, step 5, delays between 0
  and 20 and start delay 0, the reports 1, 1, 1, 1, 1 fill the burn-in; the first report of 5
  computes the baseline over them (mean 1, standard deviation 0, ceiling 1), sets the current
  delay to 0 and counts a violation; the second report of 5 moves the current delay to 5, the
  third leaves it at 5 and the fourth moves it to 10.\<close>

theorem scenario_steps:
  "init CatNone 5 2 2 2 None 0 (DelaysDict [''min'' \<mapsto> 0, ''max'' \<mapsto> 20, ''interval'' \<mapsto> 5]) False 25
     = Inr scenario0
   \<and> map_option baseline_avg (cats (run scenario0 (reports None [1,1,1,1,1,5])) ''main'') = Some (Some (Fin 1))
   \<and> map_option baseline_std (cats (run scenario0 (reports None [1,1,1,1,1,5])) ''main'') = Some (Some (Fin 0))
   \<and> map_option baseline_max (cats (run scenario0 (reports None [1,1,1,1,1,5])) ''main'') = Some (Some (Fin 1))
   \<and> current (delays (run scenario0 (reports None [1,1,1,1,1,5]))) = Some 0
   \<and> current (delays (run scenario0 (reports None [1,1,1,1,1,5,5]))) = Some 5
   \<and> current (delays (run scenario0 (reports None [1,1,1,1,1,5,5,5]))) = Some 5
   \<and> current (delays (run scenario0 (reports None [1,1,1,1,1,5,5,5,5]))) = Some 10"
  by (simp add: eval_defs init_def init_responses_def init_delays_def override_def)

subsection \<open>Jitter\<close>

text \<open>C9. With jitter amplitude 2, when the phase past burn-in hands the delay 10 to the
  last lines of \<^verbatim>\<open>track_request\<close>, then for every draw in \<open>[0, 1)\<close> the call succeeds, the
  delay it sleeps for or returns lies in \<open>[8, 12]\<close>, the state is the one the phase left
  except that the histogram counts the un-jittered key 10 once more, and the stored current
  delay is exactly 10.\<close>

theorem jitter_within_amplitude:
  assumes "rand s = Some 2" and "0 \<le> u" and "u < 1"
    and "elapsed_of r = Some e"
    and "cats s (case category of None \<Rightarrow> default_category | Some c \<Rightarrow> c) = Some cs"
    and "burn_in s \<le> int (length (responses cs))"
    and "dispatch s (case category of None \<Rightarrow> default_category | Some c \<Rightarrow> c) e = (Inr (Some 10), s')"
  shows "\<exists>out d. track_request u s r category =
             (Inr out, s'\<lparr>delay_tracker := (delay_tracker s')(Some 10 := delay_tracker s' (Some 10) + 1)\<rparr>)
           \<and> issued out = Some d \<and> 8 \<le> d \<and> d \<le> 12 \<and> current (delays s') = Some 10"
proof -
  have cur: "current (delays s') = Some 10"
    using assms(5,6,7)
    by (auto simp: dispatch_def split: if_splits
             dest: monitoring_process_returns_current end_burnin_returns_current)
  have rnd: "rand s' = Some 2"
    using assms(1,7)
    by (auto simp: dispatch_def burnin_process_def end_burnin_def monitoring_process_def
                   halt_event_def Let_def split: option.splits if_splits)
  have lo: "8 \<le> uniform u (max (10 - 2) 0) (10 + 2)"
    and hi: "uniform u (max (10 - 2) 0) (10 + 2) \<le> 12"
    using assms(2,3) by (simp_all add: uniform_def)
  show ?thesis
    using assms(4,5,7) cur rnd lo hi
    by (cases "handle_timer s'") (auto simp: track_request_def finish_def jitter_def Let_def)
qed

theorem jitter_within_amplitude_witness:
  "rand jittered = Some 2 \<and> (0::real) \<le> 1/4 \<and> (1/4::real) < 1
   \<and> elapsed_of (Number 5) = Some 5
   \<and> map_option (\<lambda>cs. burn_in jittered \<le> int (length (responses cs))) (cats jittered ''main'') = Some True
   \<and> fst (dispatch jittered ''main'' 5) = Inr (Some 10)
   \<and> fst (track_request (1/4) jittered (Number 5) None) = Inr (Returned (Some 9))
   \<and> current (delays (snd (track_request (1/4) jittered (Number 5) None))) = Some 10
   \<and> delay_tracker (snd (track_request (1/4) jittered (Number 5) None)) (Some 10) = 1
   \<and> delay_tracker (snd (track_request (1/4) jittered (Number 5) None)) (Some 9) = 0"
  using jitter_within_amplitude [where s = jittered and u = "1/4" and r = "Number 5" and e = 5
      and category = None and s' = "snd (dispatch jittered ''main'' 5)"]
  by (simp add: jittered_def eval_defs)

subsection \<open>The two counters\<close>

text \<open>C8. One run of the monitoring phase (with the current delay set) does one of four
  things to the counters: it adds one to the violation count alone, which then stays below
  \<^verbatim>\<open>slow_down_thresh\<close>; it adds one to the success count alone, which then stays below
  \<^verbatim>\<open>speed_up_thresh\<close>, and only when the current delay is above the minimum; it sets both
  counters to zero, which it does exactly when the counter it has just raised has reached its
  threshold; or it leaves both as they are.\<close>

theorem counters_exclusive:
  assumes "monitoring_process s c e = (r, s')" and "current (delays s) = Some d"
  shows "(num_violations s' = num_violations s + 1 \<and> num_successes s' = num_successes s
            \<and> num_violations s' < slow_down_thresh s)
       \<or> (num_violations s' = num_violations s \<and> num_successes s' = num_successes s + 1
            \<and> num_successes s' < speed_up_thresh s \<and> min_delay (delays s) < d)
       \<or> (num_violations s' = 0 \<and> num_successes s' = 0
            \<and> (slow_down_thresh s \<le> num_violations s + 1
                \<or> speed_up_thresh s \<le> num_successes s + 1 \<and> min_delay (delays s) < d))
       \<or> (num_violations s' = num_violations s \<and> num_successes s' = num_successes s)"
  using assms
  by (auto simp: monitoring_process_def Let_def halt_event_def split: option.splits if_splits)

theorem counters_exclusive_witness:
  "current (delays jittered) = Some 5
   \<and> num_violations jittered = 1 \<and> num_successes jittered = 0
   \<and> num_violations (snd (monitoring_process jittered ''main'' 5)) = 0
   \<and> num_successes (snd (monitoring_process jittered ''main'' 5)) = 0
   \<and> slow_down_thresh jittered \<le> num_violations jittered + 1"
  using counters_exclusive [where s = jittered and c = "''main''" and e = 5 and d = 5
      and r = "fst (monitoring_process jittered ''main'' 5)"
      and s' = "snd (monitoring_process jittered ''main'' 5)"]
  by (simp add: jittered_def eval_defs)

subsection \<open>The current delay stays within its bounds\<close>

lemma monitoring_process_range:
  assumes "range_inv s" and "monitoring_process s c e = (r, s')"
  shows "range_inv s' \<and> bounds s' = bounds s"
  using assms
  by (auto simp: range_inv_def bounds_def monitoring_process_def halt_event_def Let_def
           split: option.splits if_splits)

lemma monitoring_process_started:
  assumes "started_inv s" and "monitoring_process s c e = (r, s')"
  shows "started_inv s'"
proof (cases "current (delays s)")
  case None
  show ?thesis
  proof (cases "cats s c")
    case N: None
    then have "s' = s" using assms(2) by (simp add: monitoring_process_def)
    then show ?thesis using assms(1) by simp
  next
    case (Some cs)
    have over: "burnin_over cs = False"
      using assms(1) None Some by (simp add: started_inv_def)
    have "cats s' k = Some cs' \<Longrightarrow> burnin_over cs' = False" for k cs'
      using assms(1) None over monitoring_process_cats [OF Some assms(2)]
      by (cases "k = c") (auto simp: started_inv_def observed_def)
    then show ?thesis by (simp add: started_inv_def)
  qed
next
  case (Some d)
  from monitoring_process_current [OF Some assms(2)]
  show ?thesis by (auto simp: started_inv_def)
qed

lemma burnin_process_inv:
  assumes "range_inv s" and "started_inv s" and "burnin_process s c e = (r, s')"
  shows "range_inv s' \<and> started_inv s' \<and> bounds s' = bounds s"
proof (cases "cats s c")
  case None
  then have "s' = s" using assms(3) by (simp add: burnin_process_def)
  then show ?thesis using assms by simp
next
  case (Some cs)
  have s': "s' = s\<lparr>cats := (cats s)(c \<mapsto> cs\<lparr>responses := responses cs @ [e]\<rparr>)\<rparr>"
    using assms(3) Some by (auto simp: burnin_process_def)
  have "cats s' k = Some cs' \<Longrightarrow> current (delays s') = None \<Longrightarrow> burnin_over cs' = False" for k cs'
    using assms(2) Some by (cases "k = c") (auto simp: started_inv_def s')
  moreover have "range_inv s' \<and> bounds s' = bounds s"
    using assms(1) by (simp add: range_inv_def bounds_def s')
  ultimately show ?thesis by (simp add: started_inv_def)
qed

lemma end_burnin_inv:
  assumes "range_inv s" and "started_inv s" and "end_burnin s c e = (r, s')"
  shows "range_inv s' \<and> started_inv s' \<and> bounds s' = bounds s"
proof (cases "cats s c")
  case None
  then have "s' = s" using assms(3) by (simp add: end_burnin_def)
  then show ?thesis using assms by simp
next
  case (Some cs)
  define s1 where "s1 = s\<lparr>cats := (cats s)(c \<mapsto> cs\<lparr>baseline_avg := Some (mean (responses cs)),
                 baseline_std := Some (std (responses cs)),
                 baseline_max := Some (np_add (mean (responses cs)) (np_scale (choke_point s) (std (responses cs)))),
                 burnin_over := True\<rparr>),
               delays := (delays s)\<lparr>current := Some (start_delay s)\<rparr>\<rparr>"
  have 1: "range_inv s1" "bounds s1 = bounds s" "started_inv s1"
    using assms(1) by (simp_all add: range_inv_def bounds_def started_inv_def s1_def)
  have 2: "monitoring_process s1 c e = (r, s')"
    using assms(3) Some by (simp add: end_burnin_def Let_def s1_def)
  show ?thesis
    using monitoring_process_range [OF 1(1) 2] monitoring_process_started [OF 1(3) 2] 1(2) by simp
qed

lemma dispatch_inv:
  assumes "range_inv s" and "started_inv s" and "dispatch s c e = (r, s')"
  shows "range_inv s' \<and> started_inv s' \<and> bounds s' = bounds s"
proof (cases "cats s c")
  case None
  then have "s' = s" using assms(3) by (simp add: dispatch_def)
  then show ?thesis using assms by simp
next
  case (Some cs)
  consider (a) "burnin_process s c e = (r, s')"
    | (b) "end_burnin s c e = (r, s')"
    | (c) "monitoring_process s c e = (r, s')"
    using dispatch_cases [OF Some, of e] assms(3) by metis
  then show ?thesis
  proof cases
    case a
    then show ?thesis by (rule burnin_process_inv [OF assms(1,2)])
  next
    case b
    then show ?thesis by (rule end_burnin_inv [OF assms(1,2)])
  next
    case c
    show ?thesis
      using monitoring_process_range [OF assms(1) c] monitoring_process_started [OF assms(2) c]
      by blast
  qed
qed

lemma tracker_update_inv:
  "range_inv (s\<lparr>delay_tracker := f\<rparr>) = range_inv s"
  "started_inv (s\<lparr>delay_tracker := f\<rparr>) = started_inv s"
  "bounds (s\<lparr>delay_tracker := f\<rparr>) = bounds s"
  by (simp_all add: range_inv_def started_inv_def bounds_def)

lemma track_request_inv:
  assumes "range_inv s" and "started_inv s"
  shows "range_inv (snd (track_request u s r category))
       \<and> started_inv (snd (track_request u s r category))
       \<and> bounds (snd (track_request u s r category)) = bounds s"
proof -
  let ?c = "case category of None \<Rightarrow> default_category | Some c \<Rightarrow> c"
  show ?thesis
  proof (cases "?c \<in> dom (cats s)")
    case False
    then have "snd (track_request u s r category) = s" by (simp add: track_request_snd Let_def)
    then show ?thesis using assms by simp
  next
    case True
    show ?thesis
    proof (cases "elapsed_of r")
      case None
      then have "snd (track_request u s r category) = s" by (simp add: track_request_snd Let_def)
      then show ?thesis using assms by simp
    next
      case (Some e)
      obtain res s' where d: "dispatch s ?c e = (res, s')" by (cases "dispatch s ?c e")
      have inv: "range_inv s' \<and> started_inv s' \<and> bounds s' = bounds s"
        by (rule dispatch_inv [OF assms d])
      have "snd (track_request u s r category) = s'
          \<or> (\<exists>f. snd (track_request u s r category) = s'\<lparr>delay_tracker := f\<rparr>)"
        using True Some d by (cases res) (auto simp: track_request_snd Let_def)
      then show ?thesis using inv by (auto simp: tracker_update_inv)
    qed
  qed
qed

lemma run_inv:
  "range_inv s \<Longrightarrow> started_inv s \<Longrightarrow>
   range_inv (run s calls) \<and> started_inv (run s calls) \<and> bounds (run s calls) = bounds s"
proof (induction calls arbitrary: s)
  case Nil
  then show ?case by simp
next
  case (Cons a calls)
  obtain u r c where a: "a = (u, r, c)" by (cases a)
  from track_request_inv [OF Cons.prems, of u r c] Cons.IH [of "snd (track_request u s r c)"]
  show ?case by (simp add: a)
qed

text \<open>C1, as stated, fails in four ways. A monitor built with the defaults has the current
  delay \<^verbatim>\<open>None\<close>, which is no number. With a negative step the violation path lowers the
  delay below the minimum, where nothing clamps it. With the minimum above the maximum there
  is no value between them, and the clamped start delay is below the minimum. A
  \<^verbatim>\<open>'current'\<close> entry in the \<^verbatim>\<open>delays\<close> argument is taken as it is.\<close>

theorem current_delay_counterexample:
  "map_option (\<lambda>s. current (delays s))
      (session (init CatNone 100 2 20 20 None 0 DelaysNone True 25) []) = Some None
   \<and> map_option (\<lambda>s. (min_delay (delays s), current (delays s)))
      (session (init CatNone 5 2 2 2 None 0 (DelaysDict [''interval'' \<mapsto> - 5]) False 25)
               (reports None [1,1,1,1,1,5,5])) = Some (0, Some (- 5))
   \<and> map_option (\<lambda>s. (min_delay (delays s), max_delay (delays s), current (delays s)))
      (session (init CatNone 5 2 2 2 None 0 (DelaysDict [''min'' \<mapsto> 10, ''max'' \<mapsto> 5]) False 25)
               (reports None [1,1,1,1,1,1])) = Some (10, 5, Some 5)
   \<and> map_option (\<lambda>s. (max_delay (delays s), current (delays s)))
      (session (init CatNone 5 2 2 2 None 0 (DelaysDict [''current'' \<mapsto> 100]) False 25) [])
        = Some (30, Some 100)"
  by (simp add: eval_defs init_defs)

text \<open>C1, amended. For a monitor built with \<open>min_delay \<le> max_delay\<close>, a step that is
  not negative and no out-of-range \<^verbatim>\<open>'current'\<close> entry, after every sequence of calls (any
  responses, any categories, failing calls included) the bounds are the ones of construction
  and the current delay is either \<^verbatim>\<open>None\<close>, and then no category has finished its burn-in,
  or a number between \<open>min_delay\<close> and \<open>max_delay\<close> inclusive.\<close>

theorem current_delay_bounded:
  assumes "init categories b cp sl sp rd sd dl ht rml = Inr s0"
    and "min_delay (delays s0) \<le> max_delay (delays s0)" and "0 \<le> interval (delays s0)"
    and "case current (delays s0) of None \<Rightarrow> True
         | Some d \<Rightarrow> min_delay (delays s0) \<le> d \<and> d \<le> max_delay (delays s0)"
  shows "min_delay (delays (run s0 calls)) = min_delay (delays s0)
       \<and> max_delay (delays (run s0 calls)) = max_delay (delays s0)
       \<and> (case current (delays (run s0 calls)) of
             None \<Rightarrow> (\<forall>c cs. cats (run s0 calls) c = Some cs \<longrightarrow> burnin_over cs = False)
           | Some d \<Rightarrow> min_delay (delays s0) \<le> d \<and> d \<le> max_delay (delays s0))"
proof -
  have r: "range_inv s0"
    using assms(2,3,4) init_fields(1) [OF assms(1)]
    by (auto simp: range_inv_def split: option.splits)
  have s: "started_inv s0"
    using init_cats [OF assms(1)] by (simp add: started_inv_def)
  from run_inv [OF r s, of calls] show ?thesis
    by (auto simp: range_inv_def started_inv_def bounds_def split: option.splits)
qed

theorem current_delay_bounded_witness:
  "init CatNone 5 2 2 2 None 0 (DelaysDict [''min'' \<mapsto> 0, ''max'' \<mapsto> 20, ''interval'' \<mapsto> 5]) False 25
     = Inr scenario0
   \<and> min_delay (delays scenario0) \<le> max_delay (delays scenario0)
   \<and> 0 \<le> interval (delays scenario0)
   \<and> current (delays scenario0) = None
   \<and> min_delay (delays (run scenario0 (reports None [1,1,1,1,1,5,5]))) = 0
   \<and> max_delay (delays (run scenario0 (reports None [1,1,1,1,1,5,5]))) = 20
   \<and> current (delays (run scenario0 (reports None [1,1,1,1,1,5,5]))) = Some 5"
  using current_delay_bounded [where ?s0.0 = scenario0 and categories = CatNone and b = 5 and cp = 2
      and sl = 2 and sp = 2 and rd = None and sd = 0
      and dl = "DelaysDict [''min'' \<mapsto> 0, ''max'' \<mapsto> 20, ''interval'' \<mapsto> 5]"
      and ht = False and rml = 25 and calls = "reports None [1,1,1,1,1,5,5]"]
  by (simp add: eval_defs init_defs)

subsection \<open>The baseline is set once\<close>
















subsection \<open>Every end of a burn-in resets the delay\<close>

text \<open>C4, as stated, fails: category \<^verbatim>\<open>'a'\<close> finishes its burn-in first and two violations
  raise the delay to 5; the report that ends the burn-in of \<^verbatim>\<open>'b'\<close> then puts the delay back
  to the start delay 0.\<close>

theorem later_burnin_counterexample:
  "init (CatList [''a'', ''b'']) 5 2 2 2 None 0
        (DelaysDict [''min'' \<mapsto> 0, ''max'' \<mapsto> 20, ''interval'' \<mapsto> 5]) False 25 = Inr two_cats
   \<and> current (delays (run two_cats (reports (Some ''a'') [1,1,1,1,1,5,5] @ reports (Some ''b'') [1,1,1,1,1])))
       = Some 5
   \<and> current (delays (run two_cats (reports (Some ''a'') [1,1,1,1,1,5,5] @ reports (Some ''b'') [1,1,1,1,1,1])))
       = Some 0"
  by (simp add: eval_defs two_cats_def init_def init_responses_def init_delays_def override_def fun_eq_iff)

text \<open>C4, amended. The report that ends the burn-in of any category, first or later,
  overwrites the current delay with \<^verbatim>\<open>start_delay\<close> before the monitoring step of that same
  report: the call behaves as if the current delay had been \<^verbatim>\<open>start_delay\<close>, so afterwards
  the current delay is \<^verbatim>\<open>start_delay\<close>, or one step above it (cut at the maximum) or below it
  (cut at the minimum) when that report crosses a threshold; it is \<^verbatim>\<open>start_delay\<close> when
  neither counter is one short of its threshold.\<close>

theorem burnin_end_resets_delay:
  assumes "cats s (case category of None \<Rightarrow> default_category | Some c \<Rightarrow> c) = Some cs"
    and "int (length (responses cs)) = burn_in s" and "burnin_over cs = False"
    and "elapsed_of r = Some e"
  shows "track_request u s r category
           = track_request u (s\<lparr>delays := (delays s)\<lparr>current := Some (start_delay s)\<rparr>\<rparr>) r category
       \<and> (\<exists>d. current (delays (snd (track_request u s r category))) = Some d
              \<and> (d = start_delay s
                  \<or> d = (if max_delay (delays s) < start_delay s + interval (delays s)
                         then max_delay (delays s) else start_delay s + interval (delays s))
                  \<or> d = max (start_delay s - interval (delays s)) (min_delay (delays s))))
       \<and> (num_violations s + 1 < slow_down_thresh s \<and> num_successes s + 1 < speed_up_thresh s
            \<longrightarrow> current (delays (snd (track_request u s r category))) = Some (start_delay s))"
proof -
  let ?c = "case category of None \<Rightarrow> default_category | Some c \<Rightarrow> c"
  let ?s0 = "s\<lparr>delays := (delays s)\<lparr>current := Some (start_delay s)\<rparr>\<rparr>"
  have d: "dispatch s ?c e = end_burnin s ?c e" "dispatch ?s0 ?c e = end_burnin s ?c e"
    using assms by (simp_all add: dispatch_def end_burnin_def Let_def)
  have a: "track_request u s r category = track_request u ?s0 r category"
    using assms d by (simp add: track_request_def domI)
  have b: "current (delays (snd (track_request u s r category))) =
           current (delays (snd (end_burnin s ?c e)))"
    using assms d by (auto simp: track_request_snd Let_def split: prod.splits sum.splits)
  have c: "\<exists>d. current (delays (snd (end_burnin s ?c e))) = Some d
              \<and> (d = start_delay s
                  \<or> d = (if max_delay (delays s) < start_delay s + interval (delays s)
                         then max_delay (delays s) else start_delay s + interval (delays s))
                  \<or> d = max (start_delay s - interval (delays s)) (min_delay (delays s)))"
    using assms(1)
    by (auto simp: end_burnin_def monitoring_process_def halt_event_def Let_def)
  have e: "num_violations s + 1 < slow_down_thresh s \<and> num_successes s + 1 < speed_up_thresh s
            \<longrightarrow> current (delays (snd (end_burnin s ?c e))) = Some (start_delay s)"
    using assms(1)
    by (auto simp: end_burnin_def monitoring_process_def halt_event_def Let_def)
  show ?thesis using a b c e by simp
qed

theorem burnin_end_resets_delay_witness:
  "cats at_boundary ''b'' = Some (new_cat [1,1,1,1,1])
   \<and> int (length (responses (new_cat [1,1,1,1,1]))) = burn_in at_boundary
   \<and> burnin_over (new_cat [1,1,1,1,1]) = False
   \<and> elapsed_of (Number 1) = Some 1
   \<and> current (delays at_boundary) = Some 5 \<and> start_delay at_boundary = 0
   \<and> current (delays (snd (track_request 0 at_boundary (Number 1) (Some ''b'')))) = Some 0"
  using burnin_end_resets_delay [where s = at_boundary and category = "Some ''b''"
      and cs = "new_cat [1,1,1,1,1]" and r = "Number 1" and e = 1 and u = 0]
  by (simp add: at_boundary_def eval_defs)

subsection \<open>Runs of violations and of successes\<close>

lemma track_request_monitoring_view:
  assumes "past_burnin s c cs bm"
  shows "view (snd (track_request u s (Number e) (Some c))) = view (snd (monitoring_process s c e))"
proof -
  have d: "dispatch s c e = monitoring_process s c e"
    using assms by (auto simp: past_burnin_def dispatch_def)
  obtain res s' where m: "monitoring_process s c e = (res, s')" by (cases "monitoring_process s c e")
  have "snd (track_request u s (Number e) (Some c)) = s'
      \<or> (\<exists>f. snd (track_request u s (Number e) (Some c)) = s'\<lparr>delay_tracker := f\<rparr>)"
    using assms d m by (cases res) (auto simp: track_request_snd Let_def past_burnin_def domI)
  then show ?thesis using m by (auto simp: view_def)
qed

lemma violation_step:
  assumes "past_burnin s c cs bm"
    and "np_gt (mean (last_slice (rolling_mean_length s) (responses cs @ [e]))) bm"
    and "current (delays s) = Some d"
  shows "view (snd (monitoring_process s c e)) =
           ((cats s)(c \<mapsto> observed s cs e),
            (if slow_down_thresh s \<le> num_violations s + 1
             then (delays s)\<lparr>current := Some (min (max_delay (delays s)) (d + interval (delays s)))\<rparr>
             else delays s),
            (if slow_down_thresh s \<le> num_violations s + 1 then 0 else num_violations s + 1),
            (if slow_down_thresh s \<le> num_violations s + 1 then 0 else num_successes s),
            burn_in s, rolling_mean_length s, slow_down_thresh s, speed_up_thresh s)"
  using assms
  by (auto simp: past_burnin_def view_def observed_def monitoring_process_def halt_event_def Let_def
                 min_def)

lemma success_step:
  assumes "past_burnin s c cs bm"
    and "\<not> np_gt (mean (last_slice (rolling_mean_length s) (responses cs @ [e]))) bm"
    and "current (delays s) = Some d"
  shows "view (snd (monitoring_process s c e)) =
           ((cats s)(c \<mapsto> observed s cs e),
            (if min_delay (delays s) < d \<and> speed_up_thresh s \<le> num_successes s + 1
             then (delays s)\<lparr>current := Some (max (d - interval (delays s)) (min_delay (delays s)))\<rparr>
             else delays s),
            (if min_delay (delays s) < d \<and> speed_up_thresh s \<le> num_successes s + 1
             then 0 else num_violations s),
            (if min_delay (delays s) < d
             then (if speed_up_thresh s \<le> num_successes s + 1 then 0 else num_successes s + 1)
             else num_successes s),
            burn_in s, rolling_mean_length s, slow_down_thresh s, speed_up_thresh s)"
  using assms
  by (auto simp: past_burnin_def view_def observed_def monitoring_process_def halt_event_def Let_def)

lemma view_fields:
  assumes "view s = (cm, dl, nv, ns, b, rml, sl, sp)"
  shows "cats s = cm" "delays s = dl" "num_violations s = nv" "num_successes s = ns"
    "burn_in s = b" "rolling_mean_length s = rml" "slow_down_thresh s = sl" "speed_up_thresh s = sp"
  using assms by (simp_all add: view_def)

lemma past_burnin_observed:
  assumes "past_burnin s c cs bm"
    and "cats s' = (cats s)(c \<mapsto> observed s cs e)" and "burn_in s' = burn_in s"
  shows "past_burnin s' c (observed s cs e) bm"
  using assms by (simp add: past_burnin_def observed_def)

lemma clamp_up_arith:
  fixes d0 :: real
  assumes "0 \<le> i" and "0 \<le> k"
  shows "min m (min m (d0 + i) + i * k) = min m (d0 + i * (1 + k))"
proof -
  have "0 \<le> i * k" using assms by simp
  then show ?thesis by (simp add: min_def algebra_simps)
qed

lemma clamp_down_arith:
  fixes d0 :: real
  assumes "0 \<le> i" and "0 \<le> k"
  shows "max m (max (d0 - i) m - i * k) = max m (d0 - i * (1 + k))"
proof -
  have "0 \<le> i * k" using assms by simp
  then show ?thesis by (simp add: max_def algebra_simps)
qed

lemma wrap_arith:
  fixes a n T :: int
  assumes "a + 1 = T" and "0 < T"
  shows "(a + (1 + n)) div T = 1 + n div T" and "(a + (1 + n)) mod T = n mod T"
proof -
  have e: "a + (1 + n) = T + n" using assms(1) by simp
  show "(a + (1 + n)) div T = 1 + n div T" unfolding e using assms(2) by simp
  show "(a + (1 + n)) mod T = n mod T" unfolding e by simp
qed

text \<open>C3, as stated, fails: the comparison is made on the mean of the trailing window, which
  still holds the burn-in samples. With burn-in samples 0, 5, 5, 5, 5 the ceiling is 8; the
  report of 9 that ends the burn-in leaves the delay at 0, and so do two and four more
  reports of 9, where the claim has 5 and 10.\<close>

theorem constant_above_ceiling_counterexample:
  "map_option baseline_max (cats (run scenario0 (reports None [0,5,5,5,5,9])) ''main'') = Some (Some (Fin 8))
   \<and> current (delays (run scenario0 (reports None [0,5,5,5,5,9]))) = Some 0
   \<and> current (delays (run scenario0 (reports None [0,5,5,5,5,9,9,9]))) = Some 0
   \<and> current (delays (run scenario0 (reports None [0,5,5,5,5,9,9,9,9,9]))) = Some 0"
  by (simp add: eval_defs)

text \<open>C3, amended. Let a category be past its burn-in, the current delay \<open>d0\<close> at most
  \<open>max_delay\<close>, the step not negative, and the violation count \<open>n0\<close> between 0 and the
  threshold. If a constant latency is reported \<open>n\<close> times to that category and every rolling
  mean computed on the way (the mean of the trailing window after each report) is strictly
  above the ceiling, then the current delay ends at
  \<open>min max_delay (d0 + step * ((n0 + n) div max 1 slow_down_thresh))\<close>: it rises by the step
  once every \<^verbatim>\<open>slow_down_thresh\<close> reports, is cut at \<open>max_delay\<close> and stays there.
  The violation count ends at
  \<open>(n0 + n) mod max 1 slow_down_thresh\<close>.\<close>

theorem slow_down_closed_form:
  assumes "past_burnin s c cs bm"
    and "\<forall>k\<in>{1..length us}.
           np_gt (mean (last_slice (rolling_mean_length s) (responses cs @ replicate k v))) bm"
    and "current (delays s) = Some d0" and "d0 \<le> max_delay (delays s)"
    and "0 \<le> interval (delays s)"
    and "0 \<le> num_violations s" and "num_violations s < max 1 (slow_down_thresh s)"
  shows "current (delays (run s (constant_reports c v us))) =
           Some (min (max_delay (delays s))
                     (d0 + interval (delays s) *
                        real_of_int ((num_violations s + int (length us)) div max 1 (slow_down_thresh s))))
       \<and> num_violations (run s (constant_reports c v us)) =
           (num_violations s + int (length us)) mod max 1 (slow_down_thresh s)"
  using assms
proof (induction us arbitrary: s cs d0)
  case Nil
  then show ?case by (simp add: constant_reports_def)
next
  case (Cons u us)
  let ?T = "max 1 (slow_down_thresh s)"
  let ?s1 = "snd (track_request u s (Number v) (Some c))"
  let ?fire = "slow_down_thresh s \<le> num_violations s + 1"
  let ?d1 = "if ?fire then min (max_delay (delays s)) (d0 + interval (delays s)) else d0"
  let ?v1 = "if ?fire then 0 else num_violations s + 1"
  have first: "np_gt (mean (last_slice (rolling_mean_length s) (responses cs @ [v]))) bm"
    using Cons.prems(2) by (auto dest: bspec [where x = 1])
  have v: "view ?s1 =
           ((cats s)(c \<mapsto> observed s cs v),
            (if ?fire
             then (delays s)\<lparr>current := Some (min (max_delay (delays s)) (d0 + interval (delays s)))\<rparr>
             else delays s),
            (if ?fire then 0 else num_violations s + 1),
            (if ?fire then 0 else num_successes s),
            burn_in s, rolling_mean_length s, slow_down_thresh s, speed_up_thresh s)"
    using track_request_monitoring_view [OF Cons.prems(1)]
          violation_step [OF Cons.prems(1) first Cons.prems(3)] by simp
  note f = view_fields [OF v]
  have pb: "past_burnin ?s1 c (observed s cs v) bm"
    by (rule past_burnin_observed [OF Cons.prems(1) f(1) f(5)])
  have rest: "\<forall>k\<in>{1..length us}.
       np_gt (mean (last_slice (rolling_mean_length ?s1) (responses (observed s cs v) @ replicate k v))) bm"
  proof
    fix k assume "k \<in> {1..length us}"
    then have "Suc k \<in> {1..length (u # us)}" by simp
    then have "np_gt (mean (last_slice (rolling_mean_length s) (responses cs @ replicate (Suc k) v))) bm"
      using Cons.prems(2) by blast
    then show "np_gt (mean (last_slice (rolling_mean_length ?s1)
                  (responses (observed s cs v) @ replicate k v))) bm"
      by (simp add: f(6) observed_def)
  qed
  have cur: "current (delays ?s1) = Some ?d1" using Cons.prems(3) by (simp add: f(2))
  have le: "?d1 \<le> max_delay (delays ?s1)" using Cons.prems(4) by (simp add: f(2))
  have iv: "0 \<le> interval (delays ?s1)" using Cons.prems(5) by (simp add: f(2))
  have nv: "num_violations ?s1 = ?v1" by (simp add: f(3))
  have v0: "0 \<le> num_violations ?s1" using Cons.prems(6) by (simp add: f(3))
  have v1: "num_violations ?s1 < max 1 (slow_down_thresh ?s1)"
    using Cons.prems(6,7) by (simp add: f(3) f(7))
  have same: "max_delay (delays ?s1) = max_delay (delays s)"
    "interval (delays ?s1) = interval (delays s)" "slow_down_thresh ?s1 = slow_down_thresh s"
    by (simp_all add: f(2) f(7))
  have IH: "current (delays (run ?s1 (constant_reports c v us))) =
           Some (min (max_delay (delays s))
                     (?d1 + interval (delays s) * real_of_int ((?v1 + int (length us)) div ?T)))
       \<and> num_violations (run ?s1 (constant_reports c v us)) = (?v1 + int (length us)) mod ?T"
    using Cons.IH [OF pb rest cur le iv v0 v1] by (simp only: same nv)
  have run: "run s (constant_reports c v (u # us)) = run ?s1 (constant_reports c v us)"
    by (simp add: constant_reports_def)
  show ?case
  proof (cases ?fire)
    case True
    then have T: "num_violations s + 1 = ?T" using Cons.prems(6,7) by auto
    have dv: "(num_violations s + int (length (u # us))) div ?T = 1 + int (length us) div ?T"
      and md: "(num_violations s + int (length (u # us))) mod ?T = int (length us) mod ?T"
      using wrap_arith [OF T, of "int (length us)"] by simp_all
    have k: "0 \<le> real_of_int (int (length us) div ?T)"
      by (simp add: pos_imp_zdiv_nonneg_iff)
    show ?thesis
      using IH True clamp_up_arith [OF Cons.prems(5) k, of "max_delay (delays s)" d0]
      by (simp only: run dv md) simp
  next
    case False
    have "num_violations s + int (length (u # us)) = num_violations s + 1 + int (length us)" by simp
    then show ?thesis using IH False by (simp only: run) simp
  qed
qed

theorem slow_down_closed_form_witness:
  "past_burnin jittered ''main''
     \<lparr>responses = [1,1,1,1,1,5,5,5], baseline_avg = Some (Fin 1), baseline_std = Some (Fin 0),
      baseline_max = Some (Fin 1), rolling_mean = [Fin (5/3), Fin (15/7), Fin (5/2)], burnin_over = True\<rparr>
     (Fin 1)
   \<and> current (delays jittered) = Some 5 \<and> num_violations jittered = 1
   \<and> current (delays (run jittered (constant_reports ''main'' 5 [0, 1/2, 1/4]))) = Some 15
   \<and> num_violations (run jittered (constant_reports ''main'' 5 [0, 1/2, 1/4])) = 0"
proof -
  let ?cs = "\<lparr>responses = [1,1,1,1,1,5,5,5], baseline_avg = Some (Fin 1), baseline_std = Some (Fin 0),
      baseline_max = Some (Fin 1), rolling_mean = [Fin (5/3), Fin (15/7), Fin (5/2)], burnin_over = True\<rparr>"
  have pb: "past_burnin jittered ''main'' ?cs (Fin 1)"
    by (simp add: past_burnin_def jittered_def)
  have above: "\<forall>k\<in>{1..length [0, 1/2, 1/4 :: real]}.
      np_gt (mean (last_slice (rolling_mean_length jittered) (responses ?cs @ replicate k 5))) (Fin 1)"
  proof
    fix k :: nat assume "k \<in> {1..length [0, 1/2, 1/4 :: real]}"
    then have "k = 1 \<or> k = 2 \<or> k = 3" by auto
    then show "np_gt (mean (last_slice (rolling_mean_length jittered) (responses ?cs @ replicate k 5))) (Fin 1)"
      by (auto simp: jittered_def mean_def last_slice_def numeral_eq_Suc)
  qed
  show ?thesis
    using slow_down_closed_form [OF pb above, of 5] pb
    by (simp add: jittered_def)
qed

text \<open>C7, as stated, fails: after the reports 1, 1, 1, 1, 1, 5, 5, 5, 5 the ceiling is 1 and
  the delay stands at 10; two reports of 1/2, strictly below the ceiling, have rolling means
  above it, count as violations and raise the delay to 15.\<close>

theorem constant_below_ceiling_counterexample:
  "map_option baseline_max (cats (run scenario0 (reports None [1,1,1,1,1,5,5,5,5])) ''main'') = Some (Some (Fin 1))
   \<and> current (delays (run scenario0 (reports None [1,1,1,1,1,5,5,5,5]))) = Some 10
   \<and> current (delays (run scenario0 (reports None [1,1,1,1,1,5,5,5,5,1/2,1/2]))) = Some 15"
  by (simp add: eval_defs)

text \<open>C7, amended. Let a category be past its burn-in, the current delay \<open>d0\<close> at least
  \<open>min_delay\<close>, the step not negative, and the success count \<open>n0\<close> between 0 and the
  threshold. If a constant latency is reported \<open>n\<close> times to that category and no rolling
  mean computed on the way is above the ceiling, then the current delay ends at
  \<open>max min_delay (d0 - step * ((n0 + n) div max 1 speed_up_thresh))\<close>: it falls by the step
  once every \<^verbatim>\<open>speed_up_thresh\<close> reports until it is cut at \<open>min_delay\<close>, where it
  stays.\<close>

theorem speed_up_closed_form:
  assumes "past_burnin s c cs bm"
    and "\<forall>k\<in>{1..length us}.
           \<not> np_gt (mean (last_slice (rolling_mean_length s) (responses cs @ replicate k v))) bm"
    and "current (delays s) = Some d0" and "min_delay (delays s) \<le> d0"
    and "0 \<le> interval (delays s)"
    and "0 \<le> num_successes s" and "num_successes s < max 1 (speed_up_thresh s)"
  shows "current (delays (run s (constant_reports c v us))) =
           Some (max (min_delay (delays s))
                     (d0 - interval (delays s) *
                        real_of_int ((num_successes s + int (length us)) div max 1 (speed_up_thresh s))))"
  using assms
proof (induction us arbitrary: s cs d0)
  case Nil
  then show ?case by (simp add: constant_reports_def)
next
  case (Cons u us)
  let ?T = "max 1 (speed_up_thresh s)"
  let ?s1 = "snd (track_request u s (Number v) (Some c))"
  let ?up = "min_delay (delays s) < d0"
  let ?fire = "speed_up_thresh s \<le> num_successes s + 1"
  let ?d1 = "if ?up \<and> ?fire then max (d0 - interval (delays s)) (min_delay (delays s)) else d0"
  let ?n1 = "if ?up then (if ?fire then 0 else num_successes s + 1) else num_successes s"
  have first: "\<not> np_gt (mean (last_slice (rolling_mean_length s) (responses cs @ [v]))) bm"
    using Cons.prems(2) by (auto dest: bspec [where x = 1])
  have v: "view ?s1 =
           ((cats s)(c \<mapsto> observed s cs v),
            (if ?up \<and> ?fire
             then (delays s)\<lparr>current := Some (max (d0 - interval (delays s)) (min_delay (delays s)))\<rparr>
             else delays s),
            (if ?up \<and> ?fire then 0 else num_violations s),
            ?n1,
            burn_in s, rolling_mean_length s, slow_down_thresh s, speed_up_thresh s)"
    using track_request_monitoring_view [OF Cons.prems(1)]
          success_step [OF Cons.prems(1) first Cons.prems(3)] by simp
  note f = view_fields [OF v]
  have pb: "past_burnin ?s1 c (observed s cs v) bm"
    by (rule past_burnin_observed [OF Cons.prems(1) f(1) f(5)])
  have rest: "\<forall>k\<in>{1..length us}.
       \<not> np_gt (mean (last_slice (rolling_mean_length ?s1) (responses (observed s cs v) @ replicate k v))) bm"
  proof
    fix k assume "k \<in> {1..length us}"
    then have "Suc k \<in> {1..length (u # us)}" by simp
    then have "\<not> np_gt (mean (last_slice (rolling_mean_length s) (responses cs @ replicate (Suc k) v))) bm"
      using Cons.prems(2) by blast
    then show "\<not> np_gt (mean (last_slice (rolling_mean_length ?s1)
                  (responses (observed s cs v) @ replicate k v))) bm"
      by (simp add: f(6) observed_def)
  qed
  have cur: "current (delays ?s1) = Some ?d1" using Cons.prems(3) by (simp add: f(2))
  have ge: "min_delay (delays ?s1) \<le> ?d1" using Cons.prems(4) by (simp add: f(2))
  have iv: "0 \<le> interval (delays ?s1)" using Cons.prems(5) by (simp add: f(2))
  have ns: "num_successes ?s1 = ?n1" by (simp add: f(4))
  have n0: "0 \<le> num_successes ?s1" using Cons.prems(6) by (simp add: f(4))
  have n1: "num_successes ?s1 < max 1 (speed_up_thresh ?s1)"
    using Cons.prems(6,7) by (simp add: f(4) f(8))
  have same: "min_delay (delays ?s1) = min_delay (delays s)"
    "interval (delays ?s1) = interval (delays s)" "speed_up_thresh ?s1 = speed_up_thresh s"
    by (simp_all add: f(2) f(8))
  have IH: "current (delays (run ?s1 (constant_reports c v us))) =
           Some (max (min_delay (delays s))
                     (?d1 - interval (delays s) * real_of_int ((?n1 + int (length us)) div ?T)))"
    using Cons.IH [OF pb rest cur ge iv n0 n1] by (simp only: same ns)
  have run: "run s (constant_reports c v (u # us)) = run ?s1 (constant_reports c v us)"
    by (simp add: constant_reports_def)
  have nonneg: "0 \<le> interval (delays s) * real_of_int ((num_successes s + n) div ?T)" if "0 \<le> n" for n
  proof -
    have "0 \<le> (num_successes s + n) div ?T"
      using Cons.prems(6) that by (simp add: pos_imp_zdiv_nonneg_iff)
    then show ?thesis using Cons.prems(5) by simp
  qed
  show ?case
  proof (cases ?up)
    case False
    then have d0: "d0 = min_delay (delays s)" using Cons.prems(4) by simp
    show ?thesis
      using IH False nonneg [of "int (length us)"] nonneg [of "int (length (u # us))"]
      by (simp only: run d0) (simp add: max_def)
  next
    case up: True
    show ?thesis
    proof (cases ?fire)
      case True
      then have T: "num_successes s + 1 = ?T" using Cons.prems(6,7) by auto
      have dv: "(num_successes s + int (length (u # us))) div ?T = 1 + int (length us) div ?T"
        using wrap_arith [OF T, of "int (length us)"] by simp
      have k: "0 \<le> real_of_int (int (length us) div ?T)"
        by (simp add: pos_imp_zdiv_nonneg_iff)
      show ?thesis
        using IH True up clamp_down_arith [OF Cons.prems(5) k, of "min_delay (delays s)" d0]
        by (simp only: run dv) simp
    next
      case False
      have "num_successes s + int (length (u # us)) = num_successes s + 1 + int (length us)" by simp
      then show ?thesis using IH False up by (simp only: run) simp
    qed
  qed
qed

theorem speed_up_closed_form_witness:
  "past_burnin elevated ''main''
     \<lparr>responses = [1,1,1,1,1,5,5,5,5], baseline_avg = Some (Fin 1), baseline_std = Some (Fin 0),
      baseline_max = Some (Fin 1), rolling_mean = [Fin 5, Fin 5, Fin 5, Fin 5], burnin_over = True\<rparr>
     (Fin 1)
   \<and> current (delays elevated) = Some 10 \<and> num_successes elevated = 0
   \<and> current (delays (run elevated (constant_reports ''main'' (1/2) [0, 0]))) = Some 5
   \<and> current (delays (run elevated (constant_reports ''main'' (1/2) [0, 0, 0, 0, 0, 0]))) = Some 0"
proof -
  let ?cs = "\<lparr>responses = [1,1,1,1,1,5,5,5,5], baseline_avg = Some (Fin 1), baseline_std = Some (Fin 0),
      baseline_max = Some (Fin 1), rolling_mean = [Fin 5, Fin 5, Fin 5, Fin 5], burnin_over = True\<rparr>"
  have pb: "past_burnin elevated ''main'' ?cs (Fin 1)"
    by (simp add: past_burnin_def elevated_def)
  have below: "\<not> np_gt (mean (last_slice (rolling_mean_length elevated) (responses ?cs @ replicate k (1/2)))) (Fin 1)"
    if "k \<in> {1..6}" for k :: nat
  proof -
    have "k = 1 \<or> k = 2 \<or> k = 3 \<or> k = 4 \<or> k = 5 \<or> k = 6" using that by auto
    then show ?thesis
      by (auto simp: elevated_def mean_def last_slice_def numeral_eq_Suc)
  qed
  have b2: "\<forall>k\<in>{1..length [0, 0 :: real]}.
      \<not> np_gt (mean (last_slice (rolling_mean_length elevated) (responses ?cs @ replicate k (1/2)))) (Fin 1)"
    using below by simp
  have b6: "\<forall>k\<in>{1..length [0, 0, 0, 0, 0, 0 :: real]}.
      \<not> np_gt (mean (last_slice (rolling_mean_length elevated) (responses ?cs @ replicate k (1/2)))) (Fin 1)"
    using below by simp
  show ?thesis
    using speed_up_closed_form [OF pb b2, of 10] speed_up_closed_form [OF pb b6, of 10] pb
    by (simp add: elevated_def)
qed

end
